theory Spec2Isabelle
  imports Main "HOL-Library.Word"
begin

section \<open>JavaScript strings\<close>

text \<open>
  A JavaScript string is a sequence of UTF-16 code units; \<open>length\<close>, \<open>slice\<close>,
  \<open>indexOf\<close> and \<open>repeat\<close> all count code units. A code unit is a 16-bit word.
  \<open>str\<close> embeds an ASCII literal.
\<close>

type_synonym jschar = "16 word"
type_synonym jsstring = "jschar list"

definition str :: "string \<Rightarrow> jsstring" where
  "str s = map of_char s"

abbreviation CH_LF :: jschar where "CH_LF \<equiv> 0x0A"
abbreviation CH_HASH :: jschar where "CH_HASH \<equiv> 0x23"
abbreviation CH_DOLLAR :: jschar where "CH_DOLLAR \<equiv> 0x24"
abbreviation CH_DQUOTE :: jschar where "CH_DQUOTE \<equiv> 0x22"
abbreviation CH_SQUOTE :: jschar where "CH_SQUOTE \<equiv> 0x27"
abbreviation CH_DOT :: jschar where "CH_DOT \<equiv> 0x2E"
abbreviation CH_SLASH :: jschar where "CH_SLASH \<equiv> 0x2F"
abbreviation CH_EQ :: jschar where "CH_EQ \<equiv> 0x3D"
abbreviation CH_BACKSLASH :: jschar where "CH_BACKSLASH \<equiv> 0x5C"
abbreviation CH_UNDERSCORE :: jschar where "CH_UNDERSCORE \<equiv> 0x5F"
abbreviation CH_EMDASH :: jschar where "CH_EMDASH \<equiv> 0x2014"
abbreviation CH_BULLET :: jschar where "CH_BULLET \<equiv> 0x2022"

text \<open>
  The characters removed by \<open>String.prototype.trim\<close> and matched by the regular
  expression class \<open>\s\<close>: ECMAScript WhiteSpace and LineTerminator.
\<close>

definition is_space :: "jschar \<Rightarrow> bool" where
  "is_space c \<longleftrightarrow>
     c = 0x09 \<or> c = 0x0A \<or> c = 0x0B \<or> c = 0x0C \<or> c = 0x0D \<or> c = 0x20 \<or>
     c = 0xA0 \<or> c = 0x1680 \<or> (0x2000 \<le> c \<and> c \<le> 0x200A) \<or>
     c = 0x2028 \<or> c = 0x2029 \<or> c = 0x202F \<or> c = 0x205F \<or> c = 0x3000 \<or> c = 0xFEFF"

definition trim :: "jsstring \<Rightarrow> jsstring" where
  "trim s = rev (dropWhile is_space (rev (dropWhile is_space s)))"

text \<open>\<open>s.split(c)\<close> for a one-character separator: never the empty array.\<close>

fun split :: "jsstring \<Rightarrow> jschar \<Rightarrow> jsstring list" where
  "split [] c = [[]]"
| "split (x # xs) c =
     (if x = c then [] # split xs c
      else (case split xs c of [] \<Rightarrow> [[x]] | l # ls \<Rightarrow> (x # l) # ls))"

text \<open>\<open>s.indexOf(c)\<close> for a one-character needle: \<open>-1\<close> when absent.\<close>

fun indexOfFrom :: "jsstring \<Rightarrow> jschar \<Rightarrow> int \<Rightarrow> int" where
  "indexOfFrom [] c i = -1"
| "indexOfFrom (x # xs) c i = (if x = c then i else indexOfFrom xs c (i + 1))"

definition indexOf :: "jsstring \<Rightarrow> jschar \<Rightarrow> int" where
  "indexOf s c = indexOfFrom s c 0"

text \<open>\<open>s.slice(a, b)\<close>: negative indices count from the end, both are clamped.\<close>

definition slice :: "jsstring \<Rightarrow> int \<Rightarrow> int \<Rightarrow> jsstring" where
  "slice s a b =
     (let n = int (length s);
          from = (if a < 0 then max (n + a) 0 else min a n);
          to = (if b < 0 then max (n + b) 0 else min b n)
      in take (nat (to - from)) (drop (nat from) s))"

definition slice_from :: "jsstring \<Rightarrow> int \<Rightarrow> jsstring" where
  "slice_from s a = slice s a (int (length s))"

definition startsWith :: "jsstring \<Rightarrow> jsstring \<Rightarrow> bool" where
  "startsWith s p \<longleftrightarrow> take (length p) s = p"

definition endsWith :: "jsstring \<Rightarrow> jsstring \<Rightarrow> bool" where
  "endsWith s p \<longleftrightarrow> length p \<le> length s \<and> drop (length s - length p) s = p"

text \<open>\<open>s.replace(/c/g, r)\<close> for a one-character pattern \<open>c\<close>.\<close>

definition replace_all :: "jsstring \<Rightarrow> jschar \<Rightarrow> jsstring \<Rightarrow> jsstring" where
  "replace_all s c r = concat (map (\<lambda>x. if x = c then r else [x]) s)"

text \<open>\<open>lines.join(sep)\<close>.\<close>

fun join :: "jsstring list \<Rightarrow> jsstring \<Rightarrow> jsstring" where
  "join [] sep = []"
| "join [l] sep = l"
| "join (l # l' # ls) sep = l @ sep @ join (l' # ls) sep"

section \<open>The JavaScript \<open>Map\<close>\<close>

text \<open>
  A \<open>Map\<close> iterates in insertion order, and \<open>set\<close> on a key that is present
  replaces the value where the key stands: an association list with distinct keys.
\<close>

type_synonym jsmap = "(jsstring \<times> jsstring) list"

fun map_set :: "('k \<times> 'v) list \<Rightarrow> 'k \<Rightarrow> 'v \<Rightarrow> ('k \<times> 'v) list" where
  "map_set [] k v = [(k, v)]"
| "map_set ((k', v') # m) k v =
     (if k' = k then (k, v) # m else (k', v') # map_set m k v)"

definition map_has :: "('k \<times> 'v) list \<Rightarrow> 'k \<Rightarrow> bool" where
  "map_has m k \<longleftrightarrow> k \<in> fst ` set m"


section \<open>The env-file codec\<close>

text \<open>
  The body of the loop of \<open>parseEnvFile\<close> on one line: \<open>None\<close> is \<open>continue\<close>,
  \<open>Some (key, value)\<close> is what the line hands to \<open>env.set\<close>.
\<close>

definition parseLine :: "jsstring \<Rightarrow> (jsstring \<times> jsstring) option" where
  "parseLine line =
     (let trimmed = trim line in
      if trimmed = [] \<or> startsWith trimmed [CH_HASH] then None
      else
        let eqIndex = indexOf trimmed CH_EQ in
        if eqIndex = -1 then None
        else
          let key = trim (slice trimmed 0 eqIndex);
              value = trim (slice_from trimmed (eqIndex + 1));
              value' =
                (if (startsWith value [CH_DQUOTE] \<and> endsWith value [CH_DQUOTE]) \<or>
                    (startsWith value [CH_SQUOTE] \<and> endsWith value [CH_SQUOTE])
                 then slice value 1 (-1) else value)
          in Some (key, value'))"

fun parseLoop :: "jsstring list \<Rightarrow> jsmap \<Rightarrow> jsmap" where
  "parseLoop [] env = env"
| "parseLoop (line # rest) env =
     (case parseLine line of
        None \<Rightarrow> parseLoop rest env
      | Some (key, value) \<Rightarrow> parseLoop rest (map_set env key value))"

definition parseEnvFile :: "jsstring \<Rightarrow> jsmap" where
  "parseEnvFile content = parseLoop (split content CH_LF) []"

text \<open>The test \<open>/[\s#"'\\$]/.test(value)\<close>.\<close>

definition needsQuoting :: "jsstring \<Rightarrow> bool" where
  "needsQuoting v =
     list_ex (\<lambda>c. is_space c \<or> c = CH_HASH \<or> c = CH_DQUOTE \<or> c = CH_SQUOTE \<or>
                   c = CH_BACKSLASH \<or> c = CH_DOLLAR) v"

definition envLine :: "jsstring \<times> jsstring \<Rightarrow> jsstring" where
  "envLine e =
     (case e of (key, value) \<Rightarrow>
        if needsQuoting value
        then key @ [CH_EQ, CH_DQUOTE] @
             replace_all (replace_all value CH_BACKSLASH [CH_BACKSLASH, CH_BACKSLASH])
                         CH_DQUOTE [CH_BACKSLASH, CH_DQUOTE] @
             [CH_DQUOTE]
        else key @ [CH_EQ] @ value)"

definition serializeEnvFile :: "jsmap \<Rightarrow> jsstring" where
  "serializeEnvFile env = join (map envLine env) [CH_LF] @ [CH_LF]"

text \<open>The key pattern \<open>/^[A-Za-z_][A-Za-z0-9_]*$/\<close>.\<close>

definition is_alpha :: "jschar \<Rightarrow> bool" where
  "is_alpha c \<longleftrightarrow> (0x41 \<le> c \<and> c \<le> 0x5A) \<or> (0x61 \<le> c \<and> c \<le> 0x7A)"

definition is_digit :: "jschar \<Rightarrow> bool" where
  "is_digit c \<longleftrightarrow> 0x30 \<le> c \<and> c \<le> 0x39"

definition validKey :: "jsstring \<Rightarrow> bool" where
  "validKey key \<longleftrightarrow>
     (case key of
        [] \<Rightarrow> False
      | c # cs \<Rightarrow> (is_alpha c \<or> c = CH_UNDERSCORE) \<and>
                  list_all (\<lambda>d. is_alpha d \<or> is_digit d \<or> d = CH_UNDERSCORE) cs)"

section \<open>Paths and the file system\<close>

text \<open>
  \<open>path.join\<close> of Node (POSIX): the non-empty arguments are joined with \<open>/\<close> and the
  result is normalised: empty and \<open>.\<close> segments go, \<open>..\<close> removes the segment before
  it, and climbs above the start only in a relative path.
\<close>

type_synonym path = "jsstring list"

definition normStep :: "bool \<Rightarrow> path \<Rightarrow> jsstring \<Rightarrow> path" where
  "normStep allowAboveRoot res seg =
     (if seg = [] \<or> seg = [CH_DOT] then res
      else if seg = [CH_DOT, CH_DOT] then
        (if res \<noteq> [] \<and> last res \<noteq> [CH_DOT, CH_DOT] then butlast res
         else if allowAboveRoot then res @ [seg] else res)
      else res @ [seg])"

definition normalizeString :: "jsstring \<Rightarrow> bool \<Rightarrow> path" where
  "normalizeString p allowAboveRoot = foldl (normStep allowAboveRoot) [] (split p CH_SLASH)"

definition path_normalize :: "jsstring \<Rightarrow> jsstring" where
  "path_normalize p =
     (if p = [] then [CH_DOT]
      else
        let isAbsolute = (hd p = CH_SLASH);
            trailingSeparator = (last p = CH_SLASH);
            r = join (normalizeString p (\<not> isAbsolute)) [CH_SLASH]
        in if r = [] then
             (if isAbsolute then [CH_SLASH]
              else if trailingSeparator then [CH_DOT, CH_SLASH] else [CH_DOT])
           else (if isAbsolute then [CH_SLASH] else []) @ r @
                (if trailingSeparator then [CH_SLASH] else []))"

definition path_join :: "jsstring \<Rightarrow> jsstring \<Rightarrow> jsstring" where
  "path_join a b =
     (let args = filter (\<lambda>arg. arg \<noteq> []) [a, b] in
      if args = [] then [CH_DOT] else path_normalize (join args [CH_SLASH]))"

text \<open>
  The file system is Node's \<open>fs\<close> module over an in-memory store: a table from the
  segments of a location to a file (its text, its modification time) or a directory
  (its modification time). The root is a directory that is always there. Links,
  permissions, device faults and the limits on the length of a name or a path are
  outside the model, and so is the modification time of a directory whose entries
  change.
\<close>

datatype node = File jsstring nat | Dir nat

type_synonym fs = "(path \<times> node) list"

definition lookupNode :: "fs \<Rightarrow> path \<Rightarrow> node option" where
  "lookupNode t q = (if q = [] then Some (Dir 0) else map_of t q)"

datatype errno = ENOENT | ENOTDIR | EISDIR | EEXIST | ERR_INVALID_ARG_VALUE

definition isFile :: "node option \<Rightarrow> bool" where
  "isFile n = (case n of Some (File c m) \<Rightarrow> True | _ \<Rightarrow> False)"

definition isDir :: "node option \<Rightarrow> bool" where
  "isDir n = (case n of Some (Dir m) \<Rightarrow> True | _ \<Rightarrow> False)"

text \<open>
  A path is walked the way the kernel does it, segment by segment: each segment is
  looked up in the place reached so far, which must be a directory that exists
  (otherwise \<open>ENOTDIR\<close> or \<open>ENOENT\<close>), also for an empty segment, for \<open>.\<close> and
  for \<open>..\<close>, which goes to the parent. The place the last segment names need not
  exist.
\<close>

definition enter :: "path \<Rightarrow> jsstring \<Rightarrow> path" where
  "enter cur seg =
     (if seg = [] \<or> seg = [CH_DOT] then cur
      else if seg = [CH_DOT, CH_DOT] then butlast cur
      else cur @ [seg])"

fun walkFrom :: "fs \<Rightarrow> path \<Rightarrow> jsstring list \<Rightarrow> errno + path" where
  "walkFrom t cur [] = Inr cur"
| "walkFrom t cur (seg # rest) =
     (case lookupNode t cur of
        None \<Rightarrow> Inl ENOENT
      | Some (File c m) \<Rightarrow> Inl ENOTDIR
      | Some (Dir m) \<Rightarrow> walkFrom t (enter cur seg) rest)"



text \<open>
  What \<open>fs.writeFileSync(p, data, 'utf8')\<close> stores and a later
  \<open>fs.readFileSync(p, 'utf8')\<close> gives back: the encoder replaces every surrogate
  code unit that is not part of a pair by U+FFFD.
\<close>

definition isHighSurrogate :: "jschar \<Rightarrow> bool" where
  "isHighSurrogate c \<longleftrightarrow> 0xD800 \<le> c \<and> c \<le> 0xDBFF"

definition isLowSurrogate :: "jschar \<Rightarrow> bool" where
  "isLowSurrogate c \<longleftrightarrow> 0xDC00 \<le> c \<and> c \<le> 0xDFFF"

fun utf8Text :: "jsstring \<Rightarrow> jsstring" where
  "utf8Text [] = []"
| "utf8Text [c] = (if isHighSurrogate c \<or> isLowSurrogate c then [0xFFFD] else [c])"
| "utf8Text (c # d # rest) =
     (if isHighSurrogate c \<and> isLowSurrogate d then c # d # utf8Text rest
      else if isHighSurrogate c \<or> isLowSurrogate c then 0xFFFD # utf8Text (d # rest)
      else c # utf8Text (d # rest))"

text \<open>A string without an unpaired surrogate: the text that is stored as it is.\<close>

fun wellFormed :: "jsstring \<Rightarrow> bool" where
  "wellFormed [] = True"
| "wellFormed [c] = (\<not> isHighSurrogate c \<and> \<not> isLowSurrogate c)"
| "wellFormed (c # d # rest) =
     (if isHighSurrogate c \<and> isLowSurrogate d then wellFormed rest
      else \<not> isHighSurrogate c \<and> \<not> isLowSurrogate c \<and> wellFormed (d # rest))"

section \<open>The world of a handler\<close>

text \<open>
  What can be thrown: an \<open>Error\<close> that the source makes, with its message; an
  error of \<open>fs\<close>, with its code and path; the \<open>RangeError\<close> of \<open>repeat\<close>, with
  the count; the \<open>TypeError\<close> of destructuring \<open>undefined\<close> or \<open>null\<close>; and
  whatever a collaborator (the restart command, the connection, the client) throws.
  An event records one call of \<open>fs\<close> or \<open>execSync\<close> with its path or command.
\<close>

datatype js_error =
    JsError jsstring
  | SystemError errno jsstring
  | RangeError int
  | TypeError
  | External jsstring

datatype event =
    EvExists jsstring
  | EvReadFile jsstring
  | EvWriteFile jsstring
  | EvMkdir jsstring
  | EvRm jsstring
  | EvReaddir jsstring
  | EvStat jsstring
  | EvExec jsstring

text \<open>
  What a handler can see and change: the environment variable
  \<open>SUPABASE_FUNCTIONS_DIR\<close>, the file system, the working directory of the process
  (where a relative path starts), the clock, whether the restart command fails (and
  how), and the record of every file-system call and command made so far.
  Logging (\<open>logInfo\<close>, \<open>logError\<close>) has no effect on any of these and is left out.
\<close>

record world =
  functionsDirVar :: "jsstring option"
  files :: fs
  cwd :: path
  now :: nat
  execFailure :: "js_error option"
  trace :: "event list"

type_synonym 'a io = "world \<Rightarrow> (js_error + 'a) \<times> world"

definition io_return :: "'a \<Rightarrow> 'a io" where
  "io_return x w = (Inr x, w)"

definition io_throw :: "js_error \<Rightarrow> 'a io" where
  "io_throw e w = (Inl e, w)"

definition io_bind :: "'a io \<Rightarrow> ('a \<Rightarrow> 'b io) \<Rightarrow> 'b io" where
  "io_bind m f w = (case m w of (Inl e, w') \<Rightarrow> (Inl e, w') | (Inr x, w') \<Rightarrow> f x w')"

text \<open>\<open>try { body } catch (error) { handler }\<close>: the effects of the body stay.\<close>

definition io_try :: "'a io \<Rightarrow> (js_error \<Rightarrow> 'a io) \<Rightarrow> 'a io" where
  "io_try body handler w =
     (case body w of (Inl e, w') \<Rightarrow> handler e w' | (Inr x, w') \<Rightarrow> (Inr x, w'))"

definition record_event :: "event \<Rightarrow> world \<Rightarrow> world" where
  "record_event ev w = w\<lparr>trace := trace w @ [ev]\<rparr>"

text \<open>
  Where a path string leads in a world: an absolute path is walked from the root, a
  relative one from the working directory; the empty path leads nowhere, and \<open>fs\<close>
  refuses a path with a null character before it looks at the store.
\<close>

definition locate :: "world \<Rightarrow> jsstring \<Rightarrow> errno + path" where
  "locate w p =
     (if p = [] then Inl ENOENT
      else if 0 \<in> set p then Inl ERR_INVALID_ARG_VALUE
      else walkFrom (files w) (if hd p = CH_SLASH then [] else cwd w) (split p CH_SLASH))"

definition nodeAt :: "world \<Rightarrow> jsstring \<Rightarrow> node option" where
  "nodeAt w p = (case locate w p of Inl e \<Rightarrow> None | Inr q \<Rightarrow> lookupNode (files w) q)"

definition existsSync :: "jsstring \<Rightarrow> bool io" where
  "existsSync p w = (Inr (nodeAt w p \<noteq> None), record_event (EvExists p) w)"

definition readFileSync :: "jsstring \<Rightarrow> jsstring io" where
  "readFileSync p w =
     (case locate w p of
        Inl e \<Rightarrow> Inl (SystemError e p)
      | Inr q \<Rightarrow>
          (case lookupNode (files w) q of
             Some (File c m) \<Rightarrow> Inr c
           | Some (Dir m) \<Rightarrow> Inl (SystemError EISDIR p)
           | None \<Rightarrow> Inl (SystemError ENOENT p)),
      record_event (EvReadFile p) w)"

definition writeFileSync :: "jsstring \<Rightarrow> jsstring \<Rightarrow> unit io" where
  "writeFileSync p data w =
     (let w' = record_event (EvWriteFile p) w in
      case locate w p of
        Inl e \<Rightarrow> (Inl (SystemError e p), w')
      | Inr q \<Rightarrow>
          (let written = w'\<lparr>files := map_set (files w) q (File (utf8Text data) (now w))\<rparr>
           in case lookupNode (files w) q of
                Some (Dir m) \<Rightarrow> (Inl (SystemError EISDIR p), w')
              | Some (File c m) \<Rightarrow> (Inr (), written)
              | None \<Rightarrow>
                  (case lookupNode (files w) (butlast q) of
                     Some (Dir m) \<Rightarrow> (Inr (), written)
                   | Some (File c m) \<Rightarrow> (Inl (SystemError ENOTDIR p), w')
                   | None \<Rightarrow> (Inl (SystemError ENOENT p), w'))))"



datatype dirent = Dirent jsstring bool

fun dirent_name :: "dirent \<Rightarrow> jsstring" where
  "dirent_name (Dirent n d) = n"

fun isDirectory :: "dirent \<Rightarrow> bool" where
  "isDirectory (Dirent n d) = d"

definition direntOf :: "path \<times> node \<Rightarrow> dirent" where
  "direntOf e = Dirent (last (fst e)) (case snd e of Dir m \<Rightarrow> True | File c m \<Rightarrow> False)"

text \<open>\<open>fs.readdirSync(p, { withFileTypes: true })\<close>.\<close>

definition readdirSync :: "jsstring \<Rightarrow> dirent list io" where
  "readdirSync p w =
     (case locate w p of
        Inl e \<Rightarrow> Inl (SystemError e p)
      | Inr q \<Rightarrow>
          (case lookupNode (files w) q of
             Some (Dir m) \<Rightarrow>
               Inr (map direntOf
                      (filter (\<lambda>e. fst e \<noteq> [] \<and> butlast (fst e) = q) (files w)))
           | Some (File c m) \<Rightarrow> Inl (SystemError ENOTDIR p)
           | None \<Rightarrow> Inl (SystemError ENOENT p)),
      record_event (EvReaddir p) w)"

text \<open>\<open>fs.statSync(p).mtime\<close>.\<close>

definition statSync_mtime :: "jsstring \<Rightarrow> nat io" where
  "statSync_mtime p w =
     (case nodeAt w p of
        Some (File c m) \<Rightarrow> Inr m
      | Some (Dir m) \<Rightarrow> Inr m
      | None \<Rightarrow>
          Inl (SystemError (case locate w p of Inl e \<Rightarrow> e | Inr q \<Rightarrow> ENOENT) p),
      record_event (EvStat p) w)"

text \<open>\<open>execSync(cmd, { timeout: 30000 })\<close>: throws on a non-zero exit or a timeout.\<close>

definition execSync :: "jsstring \<Rightarrow> unit io" where
  "execSync cmd w =
     (case execFailure w of None \<Rightarrow> Inr () | Some e \<Rightarrow> Inl e,
      record_event (EvExec cmd) w)"

fun io_mapM :: "('a \<Rightarrow> 'b io) \<Rightarrow> 'a list \<Rightarrow> 'b list io" where
  "io_mapM f [] w = (Inr [], w)"
| "io_mapM f (x # xs) w =
     (case f x w of
        (Inl e, w') \<Rightarrow> (Inl e, w')
      | (Inr y, w') \<Rightarrow>
          (case io_mapM f xs w' of
             (Inl e, w'') \<Rightarrow> (Inl e, w'')
           | (Inr ys, w'') \<Rightarrow> (Inr (y # ys), w'')))"

definition io_lift :: "js_error + 'a \<Rightarrow> 'a io" where
  "io_lift r w = (r, w)"

text \<open>\<open>xs.map(f)\<close> for a callback without effects: the first throw ends it.\<close>

fun mapThrow :: "('a \<Rightarrow> js_error + 'b) \<Rightarrow> 'a list \<Rightarrow> js_error + 'b list" where
  "mapThrow f [] = Inr []"
| "mapThrow f (x # xs) =
     (case f x of
        Inl e \<Rightarrow> Inl e
      | Inr y \<Rightarrow> (case mapThrow f xs of Inl e \<Rightarrow> Inl e | Inr ys \<Rightarrow> Inr (y # ys)))"

section \<open>Arguments and result envelopes\<close>

text \<open>
  A handler receives \<open>args: unknown\<close> and destructures it at once. Destructuring
  \<open>undefined\<close> or \<open>null\<close> throws a \<open>TypeError\<close>; any other value gives
  the fields, typed here as the handler's own cast declares them.
\<close>

datatype 'a jsarg = Nullish | Obj 'a

datatype set_secret_args = SetSecretArgs jsstring jsstring

definition destructure :: "'a jsarg \<Rightarrow> 'a io" where
  "destructure args = (case args of Nullish \<Rightarrow> io_throw TypeError | Obj a \<Rightarrow> io_return a)"

text \<open>The \<open>error\<close> field: a literal text, or the \<open>message\<close> of what was caught.\<close>

datatype errtext = Text jsstring | MessageOf js_error

datatype fn_entry = FnEntry jsstring bool bool nat
datatype secret_entry = SecretEntry jsstring jsstring nat

text \<open>
  The objects the handlers return:
  \<open>Failure error\<close> is \<open>{success: false, error}\<close>, every other constructor is
  \<open>{success: true, ...}\<close> with the fields of one handler:
  \<open>Deployed message path verifyJWT note\<close>, \<open>FunctionList functions\<close>,
  \<open>Deleted message\<close>, \<open>SecretChanged message restarted note\<close>,
  \<open>SecretList secrets message\<close>, \<open>Invoked result message\<close>.
\<close>

datatype envelope =
    Failure errtext
  | Deployed jsstring jsstring bool jsstring
  | FunctionList "fn_entry list"
  | Deleted jsstring
  | SecretChanged jsstring bool jsstring
  | SecretList "secret_entry list" "jsstring option"
  | Invoked jsstring jsstring

fun success :: "envelope \<Rightarrow> bool" where
  "success (Failure e) = False"
| "success env = True"

fun restartedFlag :: "envelope \<Rightarrow> bool option" where
  "restartedFlag (SecretChanged message r note) = Some r"
| "restartedFlag env = None"

definition quoted :: "jsstring \<Rightarrow> jsstring" where
  "quoted s = [CH_SQUOTE] @ s @ [CH_SQUOTE]"

section \<open>The handlers\<close>

definition getFunctionsDir :: "jsstring io" where
  "getFunctionsDir w =
     (case functionsDirVar w of
        None \<Rightarrow> io_throw (JsError (str ''SUPABASE_FUNCTIONS_DIR not set in environment'')) w
      | Some dir \<Rightarrow>
          if dir = []
          then io_throw (JsError (str ''SUPABASE_FUNCTIONS_DIR not set in environment'')) w
          else io_bind (existsSync dir) (\<lambda>found.
                 if \<not> found
                 then io_throw (JsError (str ''Functions directory not found: '' @ dir))
                 else io_return dir) w)"

definition restartEdgeRuntime :: "bool io" where
  "restartEdgeRuntime =
     io_try
       (io_bind (execSync (str ''sudo docker restart supabase-edge-functions'')) (\<lambda>u.
        io_return True))
       (\<lambda>error. io_return False)"

definition getEnvPath :: "jsstring io" where
  "getEnvPath = io_bind getFunctionsDir (\<lambda>dir. io_return (path_join dir (str ''.env'')))"


definition listEntry :: "jsstring \<Rightarrow> dirent \<Rightarrow> fn_entry io" where
  "listEntry functionsDir e =
     (let fnDir = path_join functionsDir (dirent_name e) in
      io_bind (existsSync (path_join fnDir (str ''index.ts''))) (\<lambda>hasIndex.
      io_bind (existsSync (path_join fnDir (str ''import_map.json''))) (\<lambda>hasImportMap.
      io_bind (statSync_mtime (path_join fnDir (str ''index.ts''))) (\<lambda>mtime.
      io_return (FnEntry (dirent_name e) hasIndex hasImportMap mtime)))))"

definition handleListEdgeFunctions :: "envelope io" where
  "handleListEdgeFunctions =
     io_try
       (io_bind getFunctionsDir (\<lambda>functionsDir.
        io_bind (readdirSync functionsDir) (\<lambda>entries.
        io_bind (io_mapM (listEntry functionsDir) (filter isDirectory entries)) (\<lambda>functions.
        io_return (FunctionList functions)))))
       (\<lambda>error. io_return (Failure (MessageOf error)))"


definition handleSetSecret :: "set_secret_args jsarg \<Rightarrow> envelope io" where
  "handleSetSecret args =
     io_bind (destructure args) (\<lambda>a.
       case a of SetSecretArgs key value \<Rightarrow>
         if \<not> validKey key
         then io_return
                (Failure (Text
                   (str ''Invalid key name. Use letters, numbers, and underscores only.'')))
         else
           io_try
             (io_bind getEnvPath (\<lambda>envPath.
              io_bind (existsSync envPath) (\<lambda>found.
              io_bind
                (if found
                 then io_bind (readFileSync envPath) (\<lambda>content.
                        io_return (parseEnvFile content))
                 else io_return []) (\<lambda>env.
              let existed = map_has env key;
                  env' = map_set env key value in
              io_bind (writeFileSync envPath (serializeEnvFile env')) (\<lambda>u.
              io_bind restartEdgeRuntime (\<lambda>restarted.
              io_return
                (SecretChanged
                   (str ''Secret '' @ quoted key @
                    (if existed then str '' updated'' else str '' created'') @
                    str '' successfully'')
                   restarted
                   (if restarted
                    then str ''Edge Runtime restarted '' @ [CH_EMDASH] @
                         str '' secret is live now''
                    else str ''Secret saved but container restart failed. Run: docker restart supabase-edge-functions''))))))))
             (\<lambda>error. io_return (Failure (MessageOf error))))"


text \<open>\<open>s.repeat(count)\<close>: a negative count is a \<open>RangeError\<close>.\<close>

definition repeat :: "jsstring \<Rightarrow> int \<Rightarrow> js_error + jsstring" where
  "repeat s count =
     (if count < 0 then Inl (RangeError count) else Inr (concat (replicate (nat count) s)))"

text \<open>The callback of \<open>Array.from(env.entries()).map\<close> in \<open>handleListSecrets\<close>.\<close>

definition maskEntry :: "jsstring \<times> jsstring \<Rightarrow> js_error + secret_entry" where
  "maskEntry e =
     (case e of (key, value) \<Rightarrow>
        (case repeat [CH_BULLET] (min (int (length value) - 3) 20) of
           Inl err \<Rightarrow> Inl err
         | Inr bullets \<Rightarrow> Inr (SecretEntry key (slice value 0 3 @ bullets) (length value))))"

definition handleListSecrets :: "envelope io" where
  "handleListSecrets =
     io_try
       (io_bind getEnvPath (\<lambda>envPath.
        io_bind (existsSync envPath) (\<lambda>found.
        if \<not> found
        then io_return (SecretList [] (Some (str ''No secrets configured'')))
        else
          io_bind (readFileSync envPath) (\<lambda>content.
          let env = parseEnvFile content in
          io_bind (io_lift (mapThrow maskEntry env)) (\<lambda>secrets.
          io_return (SecretList secrets None))))))
       (\<lambda>error. io_return (Failure (MessageOf error)))"





section \<open>The serializer as the specification words it\<close>

text \<open>
  The specification of \<open>Serialize\<close>, read literally: a value is quoted when it holds
  white space or one of \<open>#\<close>, \<open>"\<close>, \<open>'\<close>, \<open>\\<close>, \<open>$\<close>; inside the quotes
  every backslash is doubled and every double quote gets a backslash.
\<close>

definition specNeedsQuote :: "jsstring \<Rightarrow> bool" where
  "specNeedsQuote v \<longleftrightarrow>
     (\<exists>c \<in> set v. is_space c \<or>
        c \<in> {CH_HASH, CH_DQUOTE, CH_SQUOTE, CH_BACKSLASH, CH_DOLLAR})"

definition specEscape :: "jsstring \<Rightarrow> jsstring" where
  "specEscape v =
     concat (map (\<lambda>c. if c = CH_BACKSLASH then [CH_BACKSLASH, CH_BACKSLASH]
                       else if c = CH_DQUOTE then [CH_BACKSLASH, CH_DQUOTE]
                       else [c]) v)"

definition specLine :: "jsstring \<times> jsstring \<Rightarrow> jsstring" where
  "specLine e =
     (if specNeedsQuote (snd e)
      then fst e @ [CH_EQ] @ [CH_DQUOTE] @ specEscape (snd e) @ [CH_DQUOTE]
      else fst e @ [CH_EQ] @ snd e)"

section \<open>Reading the store\<close>

text \<open>The functions directory of a world, when it is configured and present.\<close>

definition storeRoot :: "world \<Rightarrow> jsstring option" where
  "storeRoot w =
     (case functionsDirVar w of
        None \<Rightarrow> None
      | Some dir \<Rightarrow> if dir = [] \<or> nodeAt w dir = None then None else Some dir)"

text \<open>
  The text of the secrets file of a world: defined when the functions directory is
  configured and present and the path of \<open>.env\<close> in it leads to a regular file.
\<close>

definition secretsFile :: "world \<Rightarrow> jsstring option" where
  "secretsFile w =
     (case storeRoot w of
        None \<Rightarrow> None
      | Some dir \<Rightarrow>
          (case nodeAt w (path_join dir (str ''.env'')) of
             Some (File c m) \<Rightarrow> Some c
           | _ \<Rightarrow> None))"

text \<open>
  The mapping \<open>handleSetSecret\<close> starts from, on a store whose secrets file can be
  rewritten: the parsed file, or the empty mapping when the path of \<open>.env\<close> leads
  to nothing yet, inside a directory.
\<close>

definition loadedSecrets :: "world \<Rightarrow> jsmap option" where
  "loadedSecrets w =
     (case storeRoot w of
        None \<Rightarrow> None
      | Some dir \<Rightarrow>
          (case locate w (path_join dir (str ''.env'')) of
             Inl e \<Rightarrow> None
           | Inr q \<Rightarrow>
               (case lookupNode (files w) q of
                  Some (File c m) \<Rightarrow> Some (parseEnvFile c)
                | Some (Dir m) \<Rightarrow> None
                | None \<Rightarrow>
                    (case lookupNode (files w) (butlast q) of
                       Some (Dir m) \<Rightarrow> Some []
                     | _ \<Rightarrow> None))))"

text \<open>A path segment that \<open>normalizeString\<close> keeps as it is.\<close>

definition plainSeg :: "jsstring \<Rightarrow> bool" where
  "plainSeg s \<longleftrightarrow>
     s \<noteq> [] \<and> s \<noteq> [CH_DOT] \<and> s \<noteq> [CH_DOT, CH_DOT] \<and> CH_SLASH \<notin> set s"

text \<open>
  The \<open>(key, value)\<close> pairs that the lines of a file hand to \<open>env.set\<close>, in
  file order, and the first occurrences of the elements of a list, in order.
\<close>

definition fileEntries :: "jsstring \<Rightarrow> (jsstring \<times> jsstring) list" where
  "fileEntries content = List.map_filter parseLine (split content CH_LF)"

fun firstOccurrences :: "'a list \<Rightarrow> 'a list" where
  "firstOccurrences [] = []"
| "firstOccurrences (x # xs) = x # firstOccurrences (filter (\<lambda>y. y \<noteq> x) xs)"

text \<open>
  The listing entry the specification describes: the key, at most the first three
  characters followed by one mask character for each further one, twenty at most, and
  the length of the value.
\<close>

definition specMask :: "jsstring \<times> jsstring \<Rightarrow> secret_entry" where
  "specMask e =
     SecretEntry (fst e)
       (take 3 (snd e) @ replicate (min (length (snd e) - 3) 20) CH_BULLET)
       (length (snd e))"

section \<open>Example stores\<close>

text \<open>
  Every example has its functions directory at \<open>/f\<close> and the root as its
  working directory. \<open>sampleWorld\<close> holds one
  secret; \<open>maskWorld\<close> the example value of the specification and a value of three
  characters; \<open>shortWorld\<close> a value of two characters; \<open>dupWorld\<close> a key on two
  lines; in \<open>failWorld\<close> the restart command times out; \<open>brokenWorld\<close> has a function
  directory without \<open>index.ts\<close>; \<open>deployWorld\<close> has a deployed function with an
  import map; \<open>clashWorld\<close> is \<open>sampleWorld\<close> after a deploy of a function named
  \<open>hello/index.ts\<close>.
\<close>

definition sampleWorld :: world where
  "sampleWorld =
     \<lparr>functionsDirVar = Some (str ''/f''),
      files = [([str ''f''], Dir 1),
               ([str ''f'', str ''.env''], File (str ''A=1'') 2)],
      cwd = [], now = 10, execFailure = None, trace = []\<rparr>"

definition maskText :: jsstring where
  "maskText = str ''API_KEY=mysecretvalue123'' @ [CH_LF] @ str ''PIN=abc'' @ [CH_LF]"

definition maskWorld :: world where
  "maskWorld =
     \<lparr>functionsDirVar = Some (str ''/f''),
      files = [([str ''f''], Dir 1), ([str ''f'', str ''.env''], File maskText 2)],
      cwd = [], now = 10, execFailure = None, trace = []\<rparr>"

definition shortText :: jsstring where
  "shortText = str ''API_KEY=mysecretvalue123'' @ [CH_LF] @ str ''PIN=ab'' @ [CH_LF]"

definition shortWorld :: world where
  "shortWorld =
     \<lparr>functionsDirVar = Some (str ''/f''),
      files = [([str ''f''], Dir 1), ([str ''f'', str ''.env''], File shortText 2)],
      cwd = [], now = 10, execFailure = None, trace = []\<rparr>"

definition dupText :: jsstring where
  "dupText = str ''A=1'' @ [CH_LF] @ str ''B=2'' @ [CH_LF] @ str ''A=3'' @ [CH_LF]"

definition dupWorld :: world where
  "dupWorld =
     \<lparr>functionsDirVar = Some (str ''/f''),
      files = [([str ''f''], Dir 1), ([str ''f'', str ''.env''], File dupText 2)],
      cwd = [], now = 10, execFailure = None, trace = []\<rparr>"


definition brokenWorld :: world where
  "brokenWorld =
     \<lparr>functionsDirVar = Some (str ''/f''),
      files = [([str ''f''], Dir 1),
               ([str ''f'', str ''ok''], Dir 2),
               ([str ''f'', str ''ok'', str ''index.ts''], File (str ''export {}'') 3),
               ([str ''f'', str ''foo''], Dir 4),
               ([str ''f'', str ''foo'', str ''import_map.json''], File (str ''{}'') 5)],
      cwd = [], now = 10, execFailure = None, trace = []\<rparr>"



text \<open>
  An entry that survives the round trip: a valid key and a value without backslash,
  double quote and newline.
\<close>

definition roundTrips :: "jsstring \<times> jsstring \<Rightarrow> bool" where
  "roundTrips e \<longleftrightarrow>
     validKey (fst e) \<and> CH_BACKSLASH \<notin> set (snd e) \<and> CH_DQUOTE \<notin> set (snd e) \<and>
     CH_LF \<notin> set (snd e)"

section \<open>Basic facts\<close>

lemmas io_defs = io_bind_def io_return_def io_throw_def io_try_def io_lift_def destructure_def

lemma files_record_event [simp]: "files (record_event ev w) = files w"
  and now_record_event [simp]: "now (record_event ev w) = now w"
  and execFailure_record_event [simp]: "execFailure (record_event ev w) = execFailure w"
  and functionsDirVar_record_event [simp]: "functionsDirVar (record_event ev w) = functionsDirVar w"
  by (simp_all add: record_event_def)

lemma utf8Text_wellFormed: "wellFormed s \<Longrightarrow> utf8Text s = s"
  by (induction s rule: utf8Text.induct) (simp_all split: if_splits)

lemma wellFormed_Cons:
  "\<not> isHighSurrogate c \<Longrightarrow> \<not> isLowSurrogate c \<Longrightarrow> wellFormed (c # s) = wellFormed s"
  by (cases s) simp_all

lemma wellFormed_utf8Text: "wellFormed (utf8Text s)"
proof (induction s rule: utf8Text.induct)
  case 1
  show ?case by simp
next
  case (2 c)
  show ?case by (simp add: isHighSurrogate_def isLowSurrogate_def)
next
  case (3 c d rest)
  have r: "wellFormed (0xFFFD # t) = wellFormed t" for t
    by (rule wellFormed_Cons) (simp_all add: isHighSurrogate_def isLowSurrogate_def)
  show ?case
  proof (cases "isHighSurrogate c \<and> isLowSurrogate d")
    case True
    with 3(1) show ?thesis by simp
  next
    case False
    show ?thesis
    proof (cases "isHighSurrogate c \<or> isLowSurrogate c")
      case True
      have "utf8Text (c # d # rest) = 0xFFFD # utf8Text (d # rest)"
        using False True by auto
      moreover from False True 3(2) have "wellFormed (utf8Text (d # rest))" by blast
      ultimately show ?thesis by (simp only: r)
    next
      case False2: False
      have "utf8Text (c # d # rest) = c # utf8Text (d # rest)"
        using False False2 by auto
      moreover from False False2 3(3) have "wellFormed (utf8Text (d # rest))" by blast
      moreover from False2 have "wellFormed (c # utf8Text (d # rest)) = wellFormed (utf8Text (d # rest))"
        by (intro wellFormed_Cons) blast+
      ultimately show ?thesis by (simp only:)
    qed
  qed
qed


section \<open>The codec\<close>

lemma needsQuoting_spec: "needsQuoting v = specNeedsQuote v"
  by (auto simp: needsQuoting_def specNeedsQuote_def list_ex_iff)

lemma escape_two_passes:
  "replace_all (replace_all v CH_BACKSLASH [CH_BACKSLASH, CH_BACKSLASH])
     CH_DQUOTE [CH_BACKSLASH, CH_DQUOTE] = specEscape v"
  by (induction v) (simp_all add: replace_all_def specEscape_def)

lemma envLine_spec: "envLine = specLine"
proof
  fix e show "envLine e = specLine e"
    by (cases e) (simp add: envLine_def specLine_def needsQuoting_spec escape_two_passes)
qed

text \<open>
  C8. \<open>serializeEnvFile\<close> emits for each entry the line the specification describes:
  quoted, with every backslash doubled and every double quote escaped, exactly when
  the value holds white space, \<open>#\<close>, \<open>"\<close>, \<open>'\<close>, \<open>\\<close> or \<open>$\<close>, and
  \<open>key=value\<close> otherwise; the lines are joined with a newline and the text ends with
  a newline.
\<close>

theorem quoting_and_escaping:
  "serializeEnvFile env = join (map specLine env) [CH_LF] @ [CH_LF] \<and>
   map envLine env = map specLine env \<and>
   last (serializeEnvFile env) = CH_LF"
  by (simp add: serializeEnvFile_def envLine_spec)

theorem quoting_and_escaping_witness:
  "serializeEnvFile [(str ''KEY'', str ''hello world''), (str ''K'', str ''abc123'')] =
     str ''KEY='' @ [CH_DQUOTE] @ str ''hello world'' @ [CH_DQUOTE, CH_LF] @
     str ''K=abc123'' @ [CH_LF]"
  using quoting_and_escaping
    [of "[(str ''KEY'', str ''hello world''), (str ''K'', str ''abc123'')]"]
  by (simp add: specLine_def specNeedsQuote_def specEscape_def str_def is_space_def)

lemma map_of_map_set: "map_of (map_set t k v) k' = (if k' = k then Some v else map_of t k')"
  by (induction t) auto

lemma map_of_map_set': "map_of (map_set t k v) = (map_of t)(k \<mapsto> v)"
  by (rule ext) (simp add: map_of_map_set)

lemma keys_map_set:
  "map fst (map_set m k v) = (if k \<in> fst ` set m then map fst m else map fst m @ [k])"
  by (induction m) fastforce+

lemma key_set_map_set: "fst ` set (map_set m k v) = insert k (fst ` set m)"
proof -
  have "set (map fst (map_set m k v)) = insert k (set (map fst m))"
    unfolding keys_map_set by (cases "k \<in> fst ` set m") auto
  then show ?thesis by simp
qed

lemma distinct_map_set:
  "distinct (map fst m) \<Longrightarrow> distinct (map fst (map_set m k v))"
  by (simp add: keys_map_set)

lemma map_set_present:
  "map_has env k \<Longrightarrow>
   \<exists>i<length env. fst (env ! i) = k \<and> map_set env k v = env[i := (k, v)]"
proof (induction env)
  case Nil
  then show ?case by (simp add: map_has_def)
next
  case (Cons a env)
  show ?case
  proof (cases "fst a = k")
    case True
    then show ?thesis by (cases a) (auto intro: exI [of _ 0])
  next
    case False
    with Cons.prems have "map_has env k" by (simp add: map_has_def)
    from Cons.IH [OF this] obtain i where "i < length env" "fst (env ! i) = k"
      "map_set env k v = env[i := (k, v)]" by blast
    with False show ?thesis by (cases a) (auto intro: exI [of _ "Suc i"])
  qed
qed

lemma parseLoop_foldl:
  "parseLoop ls env =
     foldl (\<lambda>env e. map_set env (fst e) (snd e)) env (List.map_filter parseLine ls)"
  by (induction ls arbitrary: env) (auto simp: map_filter_simps split: option.splits)

lemma distinct_parseLoop:
  "distinct (map fst env) \<Longrightarrow> distinct (map fst (parseLoop ls env))"
  by (induction ls arbitrary: env) (auto simp: distinct_map_set split: option.splits)

lemma keys_foldl_set:
  "map fst (foldl (\<lambda>env e. map_set env (fst e) (snd e)) env es) =
     map fst env @ firstOccurrences (filter (\<lambda>k. k \<notin> fst ` set env) (map fst es))"
proof (induction es arbitrary: env)
  case Nil
  then show ?case by simp
next
  case (Cons e es)
  have s: "fst ` set (map_set env (fst e) (snd e)) = insert (fst e) (fst ` set env)"
    by (rule key_set_map_set)
  show ?case
  proof (cases "fst e \<in> fst ` set env")
    case True
    then have "insert (fst e) (fst ` set env) = fst ` set env" by blast
    with True s show ?thesis by (simp add: Cons.IH keys_map_set)
  next
    case False
    have "filter (\<lambda>k. k \<notin> insert (fst e) (fst ` set env)) (map fst es) =
            filter (\<lambda>y. y \<noteq> fst e) (filter (\<lambda>k. k \<notin> fst ` set env) (map fst es))"
      by (simp add: conj_commute)
    with False s show ?thesis by (simp add: Cons.IH keys_map_set)
  qed
qed

lemma map_of_foldl_set:
  "map_of (foldl (\<lambda>env e. map_set env (fst e) (snd e)) env es) = map_of env ++ map_of (rev es)"
proof (induction es arbitrary: env)
  case Nil
  then show ?case by simp
next
  case (Cons e es)
  have "(map_of env)(fst e \<mapsto> snd e) ++ map_of (rev es) =
          map_of env ++ ([fst e \<mapsto> snd e] ++ map_of (rev es))"
    by (simp add: map_add_assoc [symmetric])
  then show ?case
    by (cases e) (simp add: Cons.IH map_of_map_set' fun_upd_def)
qed

text \<open>
  C1. The round trip \<open>parseEnvFile (serializeEnvFile m) = m\<close> fails: the serializer
  escapes backslashes and double quotes and the parser never removes an escape, and a
  quoted value holding a newline is cut at the newline. Evaluated on the values
  \<open>a\b\<close>, \<open>a"b\<close> and \<open>a\<close>, newline, \<open>b\<close>.
\<close>

theorem roundtrip_fails_on_escapes:
  "parseEnvFile (serializeEnvFile [(str ''K'', [0x61, CH_BACKSLASH, 0x62])]) =
     [(str ''K'', [0x61, CH_BACKSLASH, CH_BACKSLASH, 0x62])] \<and>
   parseEnvFile (serializeEnvFile [(str ''K'', [0x61, CH_DQUOTE, 0x62])]) =
     [(str ''K'', [0x61, CH_BACKSLASH, CH_DQUOTE, 0x62])] \<and>
   parseEnvFile (serializeEnvFile [(str ''K'', [0x61, CH_LF, 0x62])]) =
     [(str ''K'', [CH_DQUOTE, 0x61])]"
  by code_simp

section \<open>Paths\<close>

lemma split_nonempty [simp]: "split s c \<noteq> []"
  by (induction s) (auto split: list.splits)

lemma split_no_sep: "c \<notin> set s \<Longrightarrow> split s c = [s]"
  by (induction s) auto


lemma split_snoc_seg:
  "c \<notin> set b \<Longrightarrow> split (a @ c # b) c = split a c @ [b]"
proof (induction a)
  case Nil
  then show ?case by (simp add: split_no_sep)
next
  case (Cons x a)
  obtain l ls where sp: "split a c = l # ls" by (cases "split a c") auto
  with Cons show ?case by auto
qed

lemma split_cons_seg:
  "c \<notin> set a \<Longrightarrow> split (a @ c # b) c = a # split b c"
  by (induction a) auto

lemma split_join:
  "st \<noteq> [] \<Longrightarrow> \<forall>s\<in>set st. c \<notin> set s \<Longrightarrow> split (join st [c]) c = st"
proof (induction st "[c]" rule: join.induct)
  case 1
  then show ?case by simp
next
  case (2 l)
  then show ?case by (simp add: split_no_sep)
next
  case (3 l l' ls)
  then show ?case by (simp add: split_cons_seg)
qed

lemma normStep_empty [simp]: "normStep b res [] = res"
  by (simp add: normStep_def)

lemma normStep_dot [simp]: "normStep b res [CH_DOT] = res"
  by (simp add: normStep_def)






lemma plain_env: "plainSeg (str ''.env'')"
  and plain_index: "plainSeg (str ''index.ts'')"
  and plain_import_map: "plainSeg (str ''import_map.json'')"
  by (simp_all add: plainSeg_def str_def)










section \<open>The store\<close>

lemma cwd_record_event [simp]: "cwd (record_event ev w) = cwd w"
  by (simp add: record_event_def)

lemma locate_record_event [simp]: "locate (record_event ev w) p = locate w p"
  by (simp add: locate_def)

lemma nodeAt_record_event [simp]: "nodeAt (record_event ev w) p = nodeAt w p"
  by (simp add: nodeAt_def split: sum.splits)

lemma storeRoot_record_event [simp]: "storeRoot (record_event ev w) = storeRoot w"
  by (simp add: storeRoot_def split: option.splits)

lemma secretsFile_record_event [simp]: "secretsFile (record_event ev w) = secretsFile w"
  by (simp add: secretsFile_def split: option.splits)

lemma lookupNode_map_set:
  "q \<noteq> [] \<Longrightarrow> lookupNode (map_set t q n) q' = (if q' = q then Some n else lookupNode t q')"
  by (simp add: lookupNode_def map_of_map_set)

text \<open>
  A walk that succeeds goes through directories only, so it is the same in every
  store that has kept the directories.
\<close>

lemma walkFrom_kept:
  assumes "\<And>k m. lookupNode t k = Some (Dir m) \<Longrightarrow> \<exists>m'. lookupNode t' k = Some (Dir m')"
  shows "walkFrom t c xs = Inr q \<Longrightarrow> walkFrom t' c xs = Inr q"
proof (induction xs arbitrary: c)
  case Nil
  then show ?case by simp
next
  case (Cons seg rest)
  from Cons.prems obtain m where d: "lookupNode t c = Some (Dir m)"
    and r: "walkFrom t (enter c seg) rest = Inr q"
    by (auto split: option.splits node.splits)
  from assms [OF d] obtain m' where "lookupNode t' c = Some (Dir m')" by blast
  with Cons.IH [OF r] show ?case by simp
qed

lemma locate_kept:
  assumes "locate w p = Inr q" and "cwd w' = cwd w"
    and "\<And>k m. lookupNode (files w) k = Some (Dir m) \<Longrightarrow> \<exists>m'. lookupNode (files w') k = Some (Dir m')"
  shows "locate w' p = Inr q"
  using assms(1) walkFrom_kept [of "files w" "files w'", OF assms(3)] assms(2)
  by (auto simp: locate_def split: if_splits)

lemma kept_map_set_File:
  assumes "lookupNode t q = None \<or> isFile (lookupNode t q)" and "lookupNode t k = Some (Dir m)"
  shows "\<exists>m'. lookupNode (map_set t q n) k = Some (Dir m')"
proof -
  from assms have "q \<noteq> []" "k \<noteq> q" by (auto simp: lookupNode_def isFile_def)
  with assms(2) show ?thesis by (simp add: lookupNode_map_set)
qed





lemma storeRoot_SomeD:
  assumes "storeRoot w = Some dir"
  shows "functionsDirVar w = Some dir" "dir \<noteq> []" "nodeAt w dir \<noteq> None"
  using assms by (auto simp: storeRoot_def split: option.splits if_splits)

lemma getFunctionsDir_ok:
  "functionsDirVar w = Some dir \<Longrightarrow> dir \<noteq> [] \<Longrightarrow> nodeAt w dir \<noteq> None \<Longrightarrow>
   getFunctionsDir w = (Inr dir, record_event (EvExists dir) w)"
  by (simp add: getFunctionsDir_def io_defs existsSync_def)

lemma getEnvPath_ok:
  "functionsDirVar w = Some dir \<Longrightarrow> dir \<noteq> [] \<Longrightarrow> nodeAt w dir \<noteq> None \<Longrightarrow>
   getEnvPath w = (Inr (path_join dir (str ''.env'')), record_event (EvExists dir) w)"
  by (simp add: getEnvPath_def io_defs getFunctionsDir_ok)

lemma restart_run:
  "restartEdgeRuntime w =
     (Inr (execFailure w = None),
      record_event (EvExec (str ''sudo docker restart supabase-edge-functions'')) w)"
  by (simp add: restartEdgeRuntime_def io_defs execSync_def split: option.splits)

text \<open>A write that succeeds, and what the paths lead to afterwards.\<close>

lemma write_ok:
  assumes "locate w p = Inr q"
    and "isFile (lookupNode (files w) q) \<or>
         (lookupNode (files w) q = None \<and> isDir (lookupNode (files w) (butlast q)))"
  shows "writeFileSync p data w =
           (Inr (), (record_event (EvWriteFile p) w)
                      \<lparr>files := map_set (files w) q (File (utf8Text data) (now w))\<rparr>)"
  using assms
  by (auto simp: writeFileSync_def Let_def isFile_def isDir_def split: option.splits node.splits)



lemma nodeAt_written:
  assumes "locate w p' = Inr q'"
    and "lookupNode (files w) q = None \<or> isFile (lookupNode (files w) q)"
    and "cwd w' = cwd w" and "files w' = map_set (files w) q n"
  shows "nodeAt w' p' = (if q' = q then Some n else lookupNode (files w) q')"
proof -
  have "locate w' p' = Inr q'"
    using assms(1,3)
  proof (rule locate_kept)
    fix k m assume "lookupNode (files w) k = Some (Dir m)"
    with assms(2) show "\<exists>m'. lookupNode (files w') k = Some (Dir m')"
      unfolding assms(4) by (rule kept_map_set_File)
  qed
  moreover from assms(2) have "q \<noteq> []" by (auto simp: lookupNode_def isFile_def)
  ultimately show ?thesis by (simp add: nodeAt_def assms(4) lookupNode_map_set)
qed

lemma secretsFile_SomeD:
  assumes "secretsFile w = Some content"
  obtains dir q m where "functionsDirVar w = Some dir" "dir \<noteq> []" "nodeAt w dir \<noteq> None"
    "storeRoot w = Some dir"
    "locate w (path_join dir (str ''.env'')) = Inr q"
    "lookupNode (files w) q = Some (File content m)"
proof -
  from assms obtain dir where root: "storeRoot w = Some dir"
    by (auto simp: secretsFile_def split: option.splits)
  with assms obtain m where n: "nodeAt w (path_join dir (str ''.env'')) = Some (File content m)"
    by (auto simp: secretsFile_def split: option.splits node.splits)
  then obtain q where "locate w (path_join dir (str ''.env'')) = Inr q"
    "lookupNode (files w) q = Some (File content m)"
    by (auto simp: nodeAt_def split: sum.splits)
  with root storeRoot_SomeD [OF root] that show ?thesis by blast
qed

lemma loadedSecrets_of_file:
  "secretsFile w = Some content \<Longrightarrow> loadedSecrets w = Some (parseEnvFile content)"
  by (erule secretsFile_SomeD) (simp add: loadedSecrets_def)

text \<open>The secrets file after its path has been written.\<close>

lemma secretsFile_written:
  assumes root: "storeRoot w = Some dir"
    and loc: "locate w (path_join dir (str ''.env'')) = Inr q"
    and free: "lookupNode (files w) q = None \<or> isFile (lookupNode (files w) q)"
    and w': "cwd w' = cwd w" "files w' = map_set (files w) q (File c m)"
      "functionsDirVar w' = functionsDirVar w"
  shows "secretsFile w' = Some c"
proof -
  note d = storeRoot_SomeD [OF root]
  from d(3) obtain q0 where l0: "locate w dir = Inr q0" and n0: "lookupNode (files w) q0 \<noteq> None"
    by (auto simp: nodeAt_def split: sum.splits)
  have "nodeAt w' dir \<noteq> None"
    using nodeAt_written [OF l0 free w'(1,2)] n0 by simp
  with d(1,2) w'(3) have "storeRoot w' = Some dir" by (simp add: storeRoot_def)
  moreover have "nodeAt w' (path_join dir (str ''.env'')) = Some (File c m)"
    using nodeAt_written [OF loc free w'(1,2)] by simp
  ultimately show ?thesis by (simp add: secretsFile_def)
qed

section \<open>Setting and deleting secrets\<close>

text \<open>
  C6. A key that does not match \<open>[A-Za-z_][A-Za-z0-9_]*\<close> makes \<open>handleSetSecret\<close>
  return the invalid-key failure and leaves the world as it was: the files are the
  same and no file-system call and no restart was recorded.
\<close>

theorem invalid_key_rejected:
  "\<not> validKey key \<Longrightarrow>
   handleSetSecret (Obj (SetSecretArgs key value)) w =
     (Inr (Failure (Text
        (str ''Invalid key name. Use letters, numbers, and underscores only.''))), w)"
  by (simp add: handleSetSecret_def io_defs)

theorem invalid_key_rejected_witness:
  "\<not> validKey (str ''bad-key!'') \<and>
   handleSetSecret (Obj (SetSecretArgs (str ''bad-key!'') (str ''v''))) sampleWorld =
     (Inr (Failure (Text
        (str ''Invalid key name. Use letters, numbers, and underscores only.''))),
      sampleWorld)"
proof -
  have h: "\<not> validKey (str ''bad-key!'')"
    by (simp add: validKey_def str_def is_alpha_def is_digit_def)
  show ?thesis using h invalid_key_rejected [OF h, of "str ''v''" sampleWorld] by simp
qed

lemma set_secret_run:
  assumes "validKey key" and "loadedSecrets w = Some env"
  shows "\<exists>r. fst (handleSetSecret (Obj (SetSecretArgs key value)) w) = Inr r \<and>
             success r \<and> restartedFlag r = Some (execFailure w = None) \<and>
             secretsFile (snd (handleSetSecret (Obj (SetSecretArgs key value)) w)) =
               Some (utf8Text (serializeEnvFile (map_set env key value)))"
proof -
  from assms(2) obtain dir where root: "storeRoot w = Some dir"
    by (auto simp: loadedSecrets_def split: option.splits)
  note d = storeRoot_SomeD [OF root]
  let ?p = "path_join dir (str ''.env'')"
  from assms(2) root obtain q where loc: "locate w ?p = Inr q"
    by (auto simp: loadedSecrets_def split: sum.splits)
  let ?w1 = "record_event (EvExists dir) w"
  let ?w2 = "record_event (EvExists ?p) ?w1"
  show ?thesis
  proof (cases "lookupNode (files w) q")
    case None
    with assms(2) root loc have dirnode: "isDir (lookupNode (files w) (butlast q))"
      and env: "env = []"
      by (auto simp: loadedSecrets_def isDir_def split: option.splits node.splits)
    let ?text = "serializeEnvFile (map_set [] key value)"
    let ?w3 = "(record_event (EvWriteFile ?p) ?w2)
                 \<lparr>files := map_set (files w) q (File (utf8Text ?text) (now w))\<rparr>"
    have wr: "writeFileSync ?p ?text ?w2 = (Inr (), ?w3)"
      using write_ok [of ?w2 ?p q ?text] loc None dirnode by simp
    have sf: "secretsFile ?w3 = Some (utf8Text ?text)"
      by (rule secretsFile_written [OF root loc]) (simp_all add: None)
    have ex: "nodeAt w ?p = None" using loc None by (simp add: nodeAt_def)
    show ?thesis
      using assms(1) env sf ex
      by (simp add: handleSetSecret_def io_defs getEnvPath_ok [OF d] existsSync_def
          wr restart_run del: map_set.simps)
  next
    case (Some n)
    with assms(2) root loc obtain c m where isfile: "n = File c m" and env: "env = parseEnvFile c"
      by (auto simp: loadedSecrets_def split: option.splits node.splits)
    let ?w3 = "record_event (EvReadFile ?p) ?w2"
    let ?text = "serializeEnvFile (map_set (parseEnvFile c) key value)"
    let ?w4 = "(record_event (EvWriteFile ?p) ?w3)
                 \<lparr>files := map_set (files w) q (File (utf8Text ?text) (now w))\<rparr>"
    have wr: "writeFileSync ?p ?text ?w3 = (Inr (), ?w4)"
      using write_ok [of ?w3 ?p q ?text] loc Some isfile by (simp add: isFile_def)
    have sf: "secretsFile ?w4 = Some (utf8Text ?text)"
      by (rule secretsFile_written [OF root loc]) (simp_all add: Some isfile isFile_def)
    have ex: "nodeAt w ?p = Some (File c m)" using loc Some isfile by (simp add: nodeAt_def)
    show ?thesis
      unfolding env
      using assms(1) Some isfile sf ex loc
      by (simp add: handleSetSecret_def io_defs getEnvPath_ok [OF d] existsSync_def
          readFileSync_def wr restart_run)
  qed
qed




text \<open>
  C9. The keys of \<open>parseEnvFile\<close> are the keys of the lines in the order of their
  first occurrences, each once, and each key is mapped to the value of its last
  occurrence. A
  \<open>handleSetSecret\<close> of a key that is already in the secrets file writes the
  serialization of the mapping with the entry at the key's position replaced, as
  \<open>writeFileSync\<close> encodes it: the key stays where it was.
\<close>

theorem duplicate_keys_and_order:
  "map fst (parseEnvFile content) = firstOccurrences (map fst (fileEntries content)) \<and>
   distinct (map fst (parseEnvFile content)) \<and>
   map_of (parseEnvFile content) = map_of (rev (fileEntries content)) \<and>
   (validKey key \<and> secretsFile w = Some content \<and> map_has (parseEnvFile content) key \<longrightarrow>
      (\<exists>i<length (parseEnvFile content).
          fst (parseEnvFile content ! i) = key \<and>
          secretsFile (snd (handleSetSecret (Obj (SetSecretArgs key value)) w)) =
            Some (utf8Text (serializeEnvFile ((parseEnvFile content)[i := (key, value)])))))"
proof (intro conjI impI)
  show "map fst (parseEnvFile content) = firstOccurrences (map fst (fileEntries content))"
    by (simp add: parseEnvFile_def parseLoop_foldl keys_foldl_set fileEntries_def)
  show "distinct (map fst (parseEnvFile content))"
    by (simp add: parseEnvFile_def distinct_parseLoop)
  show "map_of (parseEnvFile content) = map_of (rev (fileEntries content))"
    by (simp add: parseEnvFile_def parseLoop_foldl map_of_foldl_set fileEntries_def)
next
  assume a: "validKey key \<and> secretsFile w = Some content \<and> map_has (parseEnvFile content) key"
  then have l: "loadedSecrets w = Some (parseEnvFile content)"
    by (simp add: loadedSecrets_of_file)
  from set_secret_run [OF _ l, of key "value"] a
  have f: "secretsFile (snd (handleSetSecret (Obj (SetSecretArgs key value)) w)) =
             Some (utf8Text (serializeEnvFile (map_set (parseEnvFile content) key value)))"
    by blast
  from a map_set_present [of "parseEnvFile content" key "value"]
  obtain i where "i < length (parseEnvFile content)" "fst (parseEnvFile content ! i) = key"
    "map_set (parseEnvFile content) key value = (parseEnvFile content)[i := (key, value)]"
    by blast
  with f show "\<exists>i<length (parseEnvFile content).
          fst (parseEnvFile content ! i) = key \<and>
          secretsFile (snd (handleSetSecret (Obj (SetSecretArgs key value)) w)) =
            Some (utf8Text (serializeEnvFile ((parseEnvFile content)[i := (key, value)])))"
    by auto
qed

lemma parse_dupText: "parseEnvFile dupText = [(str ''A'', str ''3''), (str ''B'', str ''2'')]"
  by code_simp

lemma secretsFile_dupWorld: "secretsFile dupWorld = Some dupText"
  by code_simp

theorem duplicate_keys_and_order_witness:
  "parseEnvFile dupText = [(str ''A'', str ''3''), (str ''B'', str ''2'')] \<and>
   secretsFile (snd (handleSetSecret (Obj (SetSecretArgs (str ''A'') (str ''9''))) dupWorld)) =
     Some (str ''A=9'' @ [CH_LF] @ str ''B=2'' @ [CH_LF])"
proof -
  have k: "validKey (str ''A'')" by code_simp
  have h: "map_has (parseEnvFile dupText) (str ''A'')" by code_simp
  from duplicate_keys_and_order [of dupText "str ''A''" dupWorld "str ''9''"]
    k h secretsFile_dupWorld
  obtain i where i: "i < length (parseEnvFile dupText)"
    "fst (parseEnvFile dupText ! i) = str ''A''"
    "secretsFile (snd (handleSetSecret (Obj (SetSecretArgs (str ''A'') (str ''9''))) dupWorld)) =
       Some (utf8Text (serializeEnvFile ((parseEnvFile dupText)[i := (str ''A'', str ''9'')])))"
    by blast
  have "i = 0"
    using i(1,2) unfolding parse_dupText by (cases i) (simp_all add: str_def)
  moreover have "utf8Text (serializeEnvFile ([(str ''A'', str ''3''), (str ''B'', str ''2'')][0 := (str ''A'', str ''9'')])) =
      str ''A=9'' @ [CH_LF] @ str ''B=2'' @ [CH_LF]"
    by code_simp
  ultimately show ?thesis using i(3) by (simp add: parse_dupText)
qed

section \<open>Listing secrets\<close>

lemma mask_count: "3 \<le> n \<Longrightarrow> nat (min (int n - 3) 20) = min (n - 3) 20"
  by arith

lemma maskEntry_ok: "3 \<le> length (snd e) \<Longrightarrow> maskEntry e = Inr (specMask e)"
  by (cases e) (simp add: maskEntry_def repeat_def specMask_def slice_def mask_count)

lemma maskEntry_short:
  "length (snd e) < 3 \<Longrightarrow> maskEntry e = Inl (RangeError (int (length (snd e)) - 3))"
  by (cases e) (simp add: maskEntry_def repeat_def)

lemma mapThrow_mask_ok:
  "\<forall>e\<in>set env. 3 \<le> length (snd e) \<Longrightarrow> mapThrow maskEntry env = Inr (map specMask env)"
  by (induction env) (simp_all add: maskEntry_ok)

lemma mapThrow_mask_short:
  "\<exists>e\<in>set env. length (snd e) < 3 \<Longrightarrow> \<exists>n<0. mapThrow maskEntry env = Inl (RangeError n)"
proof (induction env)
  case Nil
  then show ?case by simp
next
  case (Cons a env)
  show ?case
  proof (cases "length (snd a) < 3")
    case True
    then show ?thesis
      by (intro exI [of _ "int (length (snd a)) - 3"]) (simp add: maskEntry_short)
  next
    case False
    with Cons.prems have "\<exists>e\<in>set env. length (snd e) < 3" by auto
    from Cons.IH [OF this] obtain n where "n < 0" "mapThrow maskEntry env = Inl (RangeError n)"
      by blast
    with False show ?thesis
      by (intro exI [of _ n]) (simp add: maskEntry_ok)
  qed
qed

lemma handleListSecrets_all_long:
  assumes "secretsFile w = Some content"
    and "\<forall>e\<in>set (parseEnvFile content). 3 \<le> length (snd e)"
  shows "fst (handleListSecrets w) =
           Inr (SecretList (map specMask (parseEnvFile content)) None)"
proof -
  from assms(1) obtain dir q m where d: "functionsDirVar w = Some dir" "dir \<noteq> []"
      "nodeAt w dir \<noteq> None"
    and loc: "locate w (path_join dir (str ''.env'')) = Inr q"
      "lookupNode (files w) q = Some (File content m)"
    by (rule secretsFile_SomeD)
  have ex: "nodeAt w (path_join dir (str ''.env'')) = Some (File content m)"
    using loc by (simp add: nodeAt_def)
  show ?thesis
    using loc ex
    by (simp add: handleListSecrets_def io_bind_def io_return_def io_try_def getEnvPath_ok [OF d]
        io_lift_def existsSync_def readFileSync_def mapThrow_mask_ok [OF assms(2)])
qed

lemma handleListSecrets_some_short:
  assumes "secretsFile w = Some content"
    and "\<exists>e\<in>set (parseEnvFile content). length (snd e) < 3"
  shows "\<exists>n<0. fst (handleListSecrets w) = Inr (Failure (MessageOf (RangeError n)))"
proof -
  from assms(1) obtain dir q m where d: "functionsDirVar w = Some dir" "dir \<noteq> []"
      "nodeAt w dir \<noteq> None"
    and loc: "locate w (path_join dir (str ''.env'')) = Inr q"
      "lookupNode (files w) q = Some (File content m)"
    by (rule secretsFile_SomeD)
  have ex: "nodeAt w (path_join dir (str ''.env'')) = Some (File content m)"
    using loc by (simp add: nodeAt_def)
  from mapThrow_mask_short [OF assms(2)] obtain n where n: "n < 0"
    "mapThrow maskEntry (parseEnvFile content) = Inl (RangeError n)"
    by blast
  have "fst (handleListSecrets w) = Inr (Failure (MessageOf (RangeError n)))"
    using loc ex n(2)
    by (simp add: handleListSecrets_def io_bind_def io_return_def io_try_def getEnvPath_ok [OF d]
        io_lift_def existsSync_def readFileSync_def)
  with n(1) show ?thesis by blast
qed

text \<open>
  C4, as the code has it. When every value of the secrets file has at least three
  characters, \<open>handleListSecrets\<close> lists for each entry its key, the first three
  characters of the value followed by one mask character for each further character, at
  most twenty, and the length of the value: the entry depends on the value only through
  its first three characters and its length. The value \<open>mysecretvalue123\<close> has 16
  characters and is listed as \<open>mys\<close> and 13 mask characters with length 16; a value
  of exactly three characters is listed whole.
\<close>

theorem secrets_masked:
  assumes "secretsFile w = Some content"
    and "\<forall>e\<in>set (parseEnvFile content). 3 \<le> length (snd e)"
  shows "fst (handleListSecrets w) =
           Inr (SecretList (map specMask (parseEnvFile content)) None)"
  using assms by (rule handleListSecrets_all_long)

lemma parse_maskText:
  "parseEnvFile maskText =
     [(str ''API_KEY'', str ''mysecretvalue123''), (str ''PIN'', str ''abc'')]"
  by code_simp

lemma secretsFile_maskWorld: "secretsFile maskWorld = Some maskText"
  by code_simp

theorem secrets_masked_witness:
  "fst (handleListSecrets maskWorld) =
     Inr (SecretList
            [SecretEntry (str ''API_KEY'') (str ''mys'' @ replicate 13 CH_BULLET) 16,
             SecretEntry (str ''PIN'') (str ''abc'') 3] None)"
proof -
  have long: "\<forall>e\<in>set (parseEnvFile maskText). 3 \<le> length (snd e)"
    by (simp add: parse_maskText str_def)
  have "map specMask (parseEnvFile maskText) =
          [SecretEntry (str ''API_KEY'') (str ''mys'' @ replicate 13 CH_BULLET) 16,
           SecretEntry (str ''PIN'') (str ''abc'') 3]"
    by code_simp
  with secrets_masked [OF secretsFile_maskWorld long] show ?thesis by simp
qed

text \<open>
  C4 as stated fails on the specification's own example: the reported length of
  \<open>mysecretvalue123\<close> is 16, not 17, and the three-character value \<open>abc\<close> appears
  unmasked in the listing.
\<close>

theorem listing_counterexample:
  "fst (handleListSecrets maskWorld) =
     Inr (SecretList
            [SecretEntry (str ''API_KEY'') (str ''mys'' @ replicate 13 CH_BULLET) 16,
             SecretEntry (str ''PIN'') (str ''abc'') 3] None) \<and>
   length (str ''mysecretvalue123'') \<noteq> 17"
  by code_simp

text \<open>
  C10. With a readable secrets file, \<open>handleListSecrets\<close> returns the failure
  envelope carrying the \<open>RangeError\<close> of \<open>repeat\<close> with a negative count exactly
  when some stored value has fewer than three characters, and a listing exactly when
  every stored value has at least three.
\<close>

theorem short_value_fails_listing:
  assumes "secretsFile w = Some content"
  shows "((\<exists>e\<in>set (parseEnvFile content). length (snd e) < 3) \<longleftrightarrow>
            (\<exists>n<0. fst (handleListSecrets w) = Inr (Failure (MessageOf (RangeError n))))) \<and>
         ((\<forall>e\<in>set (parseEnvFile content). 3 \<le> length (snd e)) \<longleftrightarrow>
            (\<exists>secrets. fst (handleListSecrets w) = Inr (SecretList secrets None)))"
proof (cases "\<exists>e\<in>set (parseEnvFile content). length (snd e) < 3")
  case True
  from handleListSecrets_some_short [OF assms True] obtain n where n: "n < 0"
    "fst (handleListSecrets w) = Inr (Failure (MessageOf (RangeError n)))"
    by blast
  from True have "\<not> (\<forall>e\<in>set (parseEnvFile content). 3 \<le> length (snd e))"
    by (auto simp: not_le)
  with True n show ?thesis by auto
next
  case False
  then have all: "\<forall>e\<in>set (parseEnvFile content). 3 \<le> length (snd e)" by auto
  have r: "fst (handleListSecrets w) = Inr (SecretList (map specMask (parseEnvFile content)) None)"
    using assms all by (rule handleListSecrets_all_long)
  with False all show ?thesis by auto
qed

lemma parse_shortText:
  "parseEnvFile shortText =
     [(str ''API_KEY'', str ''mysecretvalue123''), (str ''PIN'', str ''ab'')]"
  by code_simp

lemma secretsFile_shortWorld: "secretsFile shortWorld = Some shortText"
  by code_simp

theorem short_value_fails_listing_witness:
  "fst (handleListSecrets shortWorld) = Inr (Failure (MessageOf (RangeError (- 1))))"
proof -
  have short: "\<exists>e\<in>set (parseEnvFile shortText). length (snd e) < 3"
    by (simp add: parse_shortText str_def)
  with short_value_fails_listing [OF secretsFile_shortWorld]
  obtain n where "fst (handleListSecrets shortWorld) = Inr (Failure (MessageOf (RangeError n)))"
    by blast
  moreover have "fst (handleListSecrets shortWorld) = Inr (Failure (MessageOf (RangeError (- 1))))"
    by code_simp
  ultimately show ?thesis by simp
qed

section \<open>Deploying and listing functions\<close>














text \<open>
  C2. A directory without \<open>index.ts\<close> ends the whole listing: \<open>statSync\<close> throws
  inside the \<open>map\<close> and the handler returns the failure envelope, also for the
  directories that are complete. Evaluated on a store with a complete function
  \<open>ok\<close> and a function \<open>foo\<close> that has only an import map.
\<close>

theorem listing_aborts_on_missing_index:
  "fst (handleListEdgeFunctions brokenWorld) =
     Inr (Failure (MessageOf (SystemError ENOENT (str ''/f/foo/index.ts''))))"
  by code_simp

section \<open>The boundary of the handlers\<close>



section \<open>Where the round trip holds\<close>

lemma trim_id:
  assumes "s = [] \<or> (\<not> is_space (hd s) \<and> \<not> is_space (last s))"
  shows "trim s = s"
proof (cases "s = []")
  case True
  then show ?thesis by (simp add: trim_def)
next
  case False
  with assms have h: "\<not> is_space (hd s)" and l: "\<not> is_space (last s)" by auto
  from h have "dropWhile is_space s = s" by (simp add: dropWhile_eq_self_iff)
  moreover from l have "dropWhile is_space (rev s) = rev s"
    by (simp add: dropWhile_eq_self_iff hd_rev)
  ultimately show ?thesis by (simp add: trim_def)
qed

lemma indexOfFrom_at: "c \<notin> set k \<Longrightarrow> indexOfFrom (k @ c # r) c i = i + int (length k)"
  by (induction k arbitrary: i) auto

lemma indexOf_at: "c \<notin> set k \<Longrightarrow> indexOf (k @ c # r) c = int (length k)"
  by (simp add: indexOf_def indexOfFrom_at)

lemma slice_prefix: "slice (k @ r) 0 (int (length k)) = k"
  by (simp add: slice_def)

lemma slice_from_suffix: "slice_from (k @ c # r) (int (length k) + 1) = r"
  by (simp add: slice_from_def slice_def nat_add_distrib)

lemma slice_inner: "slice (a # v @ [b]) 1 (- 1) = v"
  by (simp add: slice_def)

lemma key_char_props:
  "is_alpha c \<or> is_digit c \<or> c = CH_UNDERSCORE \<Longrightarrow>
   \<not> is_space c \<and> c \<noteq> CH_EQ \<and> c \<noteq> CH_HASH \<and> c \<noteq> CH_LF"
  unfolding is_alpha_def is_digit_def is_space_def word_le_nat_alt word_unat_eq_iff
  by auto

lemma validKey_props:
  assumes "validKey k"
  shows "k \<noteq> []" and "\<forall>c\<in>set k. \<not> is_space c \<and> c \<noteq> CH_EQ \<and> c \<noteq> CH_HASH \<and> c \<noteq> CH_LF"
proof -
  from assms obtain c cs where k: "k = c # cs"
    and c: "is_alpha c \<or> c = CH_UNDERSCORE"
    and cs: "list_all (\<lambda>d. is_alpha d \<or> is_digit d \<or> d = CH_UNDERSCORE) cs"
    by (auto simp: validKey_def split: list.splits)
  show "k \<noteq> []" using k by simp
  have "\<forall>d\<in>set k. is_alpha d \<or> is_digit d \<or> d = CH_UNDERSCORE"
    using k c cs by (auto simp: list_all_iff)
  then show "\<forall>c\<in>set k. \<not> is_space c \<and> c \<noteq> CH_EQ \<and> c \<noteq> CH_HASH \<and> c \<noteq> CH_LF"
    using key_char_props by blast
qed

lemma replace_all_absent: "c \<notin> set s \<Longrightarrow> replace_all s c r = s"
  by (induction s) (auto simp: replace_all_def)

text \<open>What \<open>parseLine\<close> makes of a line \<open>key=rest\<close> whose rest needs no trimming.\<close>

lemma parseLine_key_rest:
  assumes "validKey k" and "r = [] \<or> (\<not> is_space (hd r) \<and> \<not> is_space (last r))"
  shows "parseLine (k @ CH_EQ # r) =
           Some (k, if (startsWith r [CH_DQUOTE] \<and> endsWith r [CH_DQUOTE]) \<or>
                       (startsWith r [CH_SQUOTE] \<and> endsWith r [CH_SQUOTE])
                    then slice r 1 (- 1) else r)"
proof -
  note kp = validKey_props [OF assms(1)]
  have hk: "\<not> is_space (hd k)" and lk: "\<not> is_space (last k)" and hh: "hd k \<noteq> CH_HASH"
    using kp by auto
  have eq: "CH_EQ \<notin> set k" using kp(2) by blast
  have nsp: "\<not> is_space CH_EQ" by (simp add: is_space_def)
  have t: "trim (k @ CH_EQ # r) = k @ CH_EQ # r"
    using kp(1) hk assms(2) nsp by (intro trim_id) (auto simp: hd_append)
  have nh: "\<not> startsWith (k @ CH_EQ # r) [CH_HASH]"
    using kp(1) hh by (cases k) (simp_all add: startsWith_def)
  have tk: "trim k = k" using hk lk by (intro trim_id) simp
  have tr: "trim r = r" using assms(2) by (rule trim_id)
  show ?thesis
    unfolding parseLine_def t Let_def
    using nh by (simp add: indexOf_at [OF eq] slice_prefix slice_from_suffix tk tr)
qed

lemma parseLine_empty: "parseLine [] = None"
  by (simp add: parseLine_def trim_def)

lemma parseLine_envLine:
  assumes "validKey k" and "CH_BACKSLASH \<notin> set v" and "CH_DQUOTE \<notin> set v"
  shows "parseLine (envLine (k, v)) = Some (k, v)"
proof (cases "needsQuoting v")
  case True
  have nq: "\<not> is_space CH_DQUOTE" by (simp add: is_space_def)
  have line: "envLine (k, v) = k @ CH_EQ # (CH_DQUOTE # v @ [CH_DQUOTE])"
    using True assms(2,3) by (simp add: envLine_def replace_all_absent)
  have "parseLine (k @ CH_EQ # (CH_DQUOTE # v @ [CH_DQUOTE])) =
          Some (k, slice (CH_DQUOTE # v @ [CH_DQUOTE]) 1 (- 1))"
    using nq by (subst parseLine_key_rest [OF assms(1)]) (simp_all add: startsWith_def endsWith_def)
  with line show ?thesis by (simp add: slice_inner)
next
  case False
  then have plain: "\<forall>c\<in>set v. \<not> is_space c \<and> c \<noteq> CH_DQUOTE \<and> c \<noteq> CH_SQUOTE"
    by (auto simp: needsQuoting_def list_ex_iff)
  have line: "envLine (k, v) = k @ CH_EQ # v"
    using False by (simp add: envLine_def)
  have ends: "v = [] \<or> (\<not> is_space (hd v) \<and> \<not> is_space (last v))"
    using plain by auto
  have nd: "\<not> startsWith v [CH_DQUOTE]" and ns: "\<not> startsWith v [CH_SQUOTE]"
    using plain by (cases v; simp add: startsWith_def)+
  from parseLine_key_rest [OF assms(1) ends] nd ns line show ?thesis by simp
qed

lemma envLine_no_LF:
  assumes "validKey k" and "CH_LF \<notin> set v" and "CH_BACKSLASH \<notin> set v" and "CH_DQUOTE \<notin> set v"
  shows "CH_LF \<notin> set (envLine (k, v))"
  using validKey_props(2) [OF assms(1)] assms(2-4)
  by (auto simp: envLine_def replace_all_absent)

lemma split_terminated:
  assumes "ls \<noteq> []" and "\<forall>l\<in>set ls. c \<notin> set l"
  shows "split (join ls [c] @ [c]) c = ls @ [[]]"
  using split_snoc_seg [of c "[]" "join ls [c]"] split_join [OF assms] by simp

lemma map_set_absent: "k \<notin> fst ` set env \<Longrightarrow> map_set env k v = env @ [(k, v)]"
  by (induction env) auto

lemma foldl_set_distinct:
  "distinct (map fst (env @ m)) \<Longrightarrow>
   foldl (\<lambda>env e. map_set env (fst e) (snd e)) env m = env @ m"
proof (induction m arbitrary: env)
  case Nil
  then show ?case by simp
next
  case (Cons e m)
  from Cons.prems have "fst e \<notin> fst ` set env" by auto
  then have "map_set env (fst e) (snd e) = env @ [e]" by (simp add: map_set_absent)
  moreover from Cons.prems have "distinct (map fst ((env @ [e]) @ m))" by simp
  ultimately show ?case using Cons.IH [of "env @ [e]"] by simp
qed

lemma map_filter_envLine:
  "\<forall>e\<in>set m. roundTrips e \<Longrightarrow> List.map_filter parseLine (map envLine m) = m"
  by (induction m) (auto simp: map_filter_simps roundTrips_def parseLine_envLine)

lemma map_filter_snoc_None:
  "f x = None \<Longrightarrow> List.map_filter f (xs @ [x]) = List.map_filter f xs"
  by (simp add: List.map_filter_def)

text \<open>
  The extent of the defect of C1: on mappings with distinct valid keys whose values hold
  no backslash, no double quote and no newline the round trip does hold.
\<close>

lemma roundtrip_where_unescaped:
  assumes "distinct (map fst m)" and "\<forall>e\<in>set m. roundTrips e"
  shows "parseEnvFile (serializeEnvFile m) = m"
proof (cases "m = []")
  case True
  then show ?thesis
    by (simp add: parseEnvFile_def serializeEnvFile_def parseLine_empty)
next
  case False
  have "\<forall>l\<in>set (map envLine m). CH_LF \<notin> set l"
    using assms(2) by (auto simp: roundTrips_def envLine_no_LF)
  with False have "split (serializeEnvFile m) CH_LF = map envLine m @ [[]]"
    unfolding serializeEnvFile_def by (intro split_terminated) simp_all
  then have "parseEnvFile (serializeEnvFile m) =
               foldl (\<lambda>env e. map_set env (fst e) (snd e)) [] m"
    by (simp add: parseEnvFile_def parseLoop_foldl map_filter_snoc_None parseLine_empty
        map_filter_envLine [OF assms(2)])
  with assms(1) show ?thesis by (simp add: foldl_set_distinct)
qed

end
